theory Spec2Isabelle
  imports Complex_Main "HOL-Library.Sublist" "HOL-Library.Multiset"
begin

section \<open>JavaScript values used by \<open>app.js\<close>\<close>

text \<open>
  Numbers are the integers the code computes with, plus the two non-finite values that
  \<open>parseInt\<close>, \<open>||\<close> and a division can produce.  The integers are unbounded: the
  model is exact as long as every value stays below \<open>2^53\<close>, where doubles are exact.
\<close>

datatype number = Num int | Infinity | NaN

text \<open>
  Strings are lists of ASCII code units.  On these, \<open>String.prototype.toLowerCase\<close> maps
  \<open>A\<close>..\<open>Z\<close> to \<open>a\<close>..\<open>z\<close> and leaves every other unit alone, and
  \<open>String.prototype.includes\<close> is the contiguous-substring test.
\<close>

definition lowerChar :: "char \<Rightarrow> char" where
  "lowerChar c =
     (let n = (of_char c :: nat) in if 65 \<le> n \<and> n \<le> 90 then char_of (n + 32) else c)"

definition toLowerCase :: "string \<Rightarrow> string" where
  "toLowerCase s = map lowerChar s"

definition includes_str :: "string \<Rightarrow> string \<Rightarrow> bool" where
  "includes_str s searchString = sublist searchString s"

subsection \<open>\<open>parseInt\<close> with no radix argument\<close>

text \<open>
  ECMAScript \<open>parseInt(string)\<close>: leading white space is dropped, then an optional sign,
  then an optional \<open>0x\<close>/\<open>0X\<close> prefix (which switches to radix 16); the value is that of
  the longest prefix of digits of the radix, and \<open>NaN\<close> (here \<open>None\<close>) when that prefix
  is empty.  Whatever follows the digits is ignored.
\<close>

definition isStrWhiteSpaceChar :: "char \<Rightarrow> bool" where
  "isStrWhiteSpaceChar c =
     (let n = (of_char c :: nat) in n = 32 \<or> (9 \<le> n \<and> n \<le> 13))"

definition digitValue :: "char \<Rightarrow> nat option" where
  "digitValue c =
     (let n = (of_char c :: nat) in
      if 48 \<le> n \<and> n \<le> 57 then Some (n - 48)
      else if 97 \<le> n \<and> n \<le> 122 then Some (n - 87)
      else if 65 \<le> n \<and> n \<le> 90 then Some (n - 55)
      else None)"

fun radixDigits :: "nat \<Rightarrow> string \<Rightarrow> nat list" where
  "radixDigits R [] = []"
| "radixDigits R (c # cs) =
     (case digitValue c of
        None \<Rightarrow> []
      | Some d \<Rightarrow> if d < R then d # radixDigits R cs else [])"

definition mathInt :: "nat \<Rightarrow> nat list \<Rightarrow> nat" where
  "mathInt R ds = foldl (\<lambda>acc d. acc * R + d) 0 ds"

definition stripSign :: "string \<Rightarrow> int \<times> string" where
  "stripSign s =
     (case s of
        c # cs \<Rightarrow> if c = CHR ''-'' then (- 1, cs) else if c = CHR ''+'' then (1, cs) else (1, s)
      | [] \<Rightarrow> (1, s))"

definition stripPrefix :: "string \<Rightarrow> nat \<times> string" where
  "stripPrefix s =
     (case s of
        c # d # cs \<Rightarrow>
          if c = CHR ''0'' \<and> (d = CHR ''x'' \<or> d = CHR ''X'') then (16, cs) else (10, s)
      | _ \<Rightarrow> (10, s))"

definition parseIntString :: "string \<Rightarrow> int option" where
  "parseIntString inputString =
     (let (sign, s1) = stripSign (dropWhile isStrWhiteSpaceChar inputString);
          (R, s2) = stripPrefix s1;
          Z = radixDigits R s2
      in if Z = [] then None else Some (sign * int (mathInt R Z)))"

text \<open>
  A query parameter is absent (\<open>undefined\<close>) or a string.  \<open>parseInt(undefined)\<close> parses
  the string \<open>"undefined"\<close>, which has no digit.
\<close>

definition parseInt :: "string option \<Rightarrow> int option" where
  "parseInt v = parseIntString (case v of None \<Rightarrow> ''undefined'' | Some s \<Rightarrow> s)"

text \<open>
  \<open>parseInt(v) || d\<close>: the default replaces the two falsy results, \<open>NaN\<close> and \<open>0\<close>.
\<close>

definition orDefault :: "int option \<Rightarrow> number \<Rightarrow> number" where
  "orDefault parsed d =
     (case parsed of None \<Rightarrow> d | Some n \<Rightarrow> if n = 0 then d else Num n)"

definition intOr :: "int option \<Rightarrow> int \<Rightarrow> int" where
  "intOr parsed d = (case orDefault parsed (Num d) of Num n \<Rightarrow> n | _ \<Rightarrow> d)"

subsection \<open>\<open>Array.prototype.slice\<close>\<close>

text \<open>
  \<open>array.slice(start, end)\<close> for integer arguments: a negative index counts from the
  end, both indices are clamped to \<open>0..length\<close>, and the result is empty when the
  clamped start is not below the clamped end.
\<close>

definition relativeIndex :: "nat \<Rightarrow> int \<Rightarrow> nat" where
  "relativeIndex len i = (if i < 0 then nat (max (int len + i) 0) else min (nat i) len)"

definition slice :: "'a list \<Rightarrow> int \<Rightarrow> int \<Rightarrow> 'a list" where
  "slice array start end =
     (let k = relativeIndex (length array) start;
          final = relativeIndex (length array) end
      in take (final - k) (drop k array))"

section \<open>The pagination helper\<close>

record 'a results =
  total_r :: nat
  totalPages :: number
  currentPage :: int
  limit :: int
  "next" :: "(int \<times> int) option"
  previous :: "(int \<times> int) option"
  data :: "'a list"

text \<open>
  \<open>Math.ceil(array.length / limit)\<close>.  A zero divisor gives \<open>Infinity\<close>, or \<open>NaN\<close> for
  \<open>0 / 0\<close>; otherwise the quotient is rounded up.
\<close>

definition ceilDiv :: "nat \<Rightarrow> int \<Rightarrow> number" where
  "ceilDiv len d =
     (if d = 0 then (if len = 0 then NaN else Infinity)
      else Num (- ((- int len) div d)))"

text \<open>
  \<open>paginate(array, page, limit)\<close> of \<open>app.js\<close>.  The optional fields \<open>next\<close> and
  \<open>previous\<close> hold the pair \<open>(page, limit)\<close> when present.
\<close>

definition paginate :: "'a list \<Rightarrow> int \<Rightarrow> int \<Rightarrow> 'a results" where
  "paginate = (\<lambda>array page limit.
     let startIndex = (page - 1) * limit;
         endIndex = page * limit
     in \<lparr> total_r = length array,
          totalPages = ceilDiv (length array) limit,
          currentPage = page,
          limit = limit,
          next = (if endIndex < int (length array) then Some (page + 1, limit) else None),
          previous = (if startIndex > 0 then Some (page - 1, limit) else None),
          data = slice array startIndex endIndex \<rparr>)"

section \<open>Mock data\<close>

record user =
  user_id :: int
  user_name :: string
  email :: string
  age :: int
  city :: string

record product =
  product_id :: int
  product_name :: string
  price :: int
  category :: string
  stock :: int

text \<open>The decimal numeral that a template literal inserts for a non-negative integer.\<close>

fun decimal :: "nat \<Rightarrow> string" where
  "decimal n =
     (if n < 10 then [char_of (48 + n)] else decimal (n div 10) @ [char_of (48 + n mod 10)])"

definition cities :: "string list" where
  "cities = [''New York'', ''Los Angeles'', ''Chicago'', ''Houston'', ''Phoenix'']"

definition categories :: "string list" where
  "categories = [''Electronics'', ''Clothing'', ''Books'', ''Food'', ''Toys'']"

text \<open>
  The two \<open>Array.from\<close> generators.  The random draws are parameters: for the element of
  index \<open>i\<close>, \<open>ageDraw i\<close> stands for \<open>Math.floor(Math.random() * 50)\<close>, \<open>cityDraw i\<close>
  and \<open>categoryDraw i\<close> for \<open>Math.floor(Math.random() * 5)\<close> (a value in \<open>0..4\<close>),
  \<open>priceDraw i\<close> for \<open>Math.floor(Math.random() * 1000)\<close> and \<open>stockDraw i\<close> for
  \<open>Math.floor(Math.random() * 100)\<close>.
\<close>

definition makeUsers :: "(nat \<Rightarrow> nat) \<Rightarrow> (nat \<Rightarrow> nat) \<Rightarrow> user list" where
  "makeUsers ageDraw cityDraw =
     map (\<lambda>i. \<lparr> user_id = int i + 1,
                user_name = ''User'' @ decimal (i + 1),
                email = ''user'' @ decimal (i + 1) @ ''@example.com'',
                age = int (ageDraw i) + 18,
                city = cities ! cityDraw i \<rparr>) [0..<100]"

definition makeProducts :: "(nat \<Rightarrow> nat) \<Rightarrow> (nat \<Rightarrow> nat) \<Rightarrow> (nat \<Rightarrow> nat) \<Rightarrow> product list" where
  "makeProducts priceDraw categoryDraw stockDraw =
     map (\<lambda>i. \<lparr> product_id = int i + 1,
                product_name = ''Product '' @ decimal (i + 1),
                price = int (priceDraw i) + 10,
                category = categories ! categoryDraw i,
                stock = int (stockDraw i) \<rparr>) [0..<50]"

section \<open>The store: the two module-level arrays and the arrays a request allocates\<close>

text \<open>
  \<open>Array.prototype.sort\<close> sorts the array it is called on in place, so it matters which
  array that is.  A reference names either the module-level \<open>products\<close> array or an
  array allocated while a request is served; \<open>locals\<close> holds the latter, by index.
  \<open>filter\<close> and \<open>slice\<close> return new arrays that nothing writes to afterwards; they
  are plain lists.
\<close>

datatype ref = ProductsRef | Local nat

record store =
  users :: "user list"
  products :: "product list"
  locals :: "product list list"

definition deref :: "store \<Rightarrow> ref \<Rightarrow> product list" where
  "deref s r = (case r of ProductsRef \<Rightarrow> products s | Local i \<Rightarrow> locals s ! i)"

definition assign :: "store \<Rightarrow> ref \<Rightarrow> product list \<Rightarrow> store" where
  "assign s r xs =
     (case r of
        ProductsRef \<Rightarrow> s\<lparr>products := xs\<rparr>
      | Local i \<Rightarrow> s\<lparr>locals := (locals s)[i := xs]\<rparr>)"

text \<open>The spread \<open>[...a]\<close>: a new array with the elements of \<open>a\<close>.\<close>

definition spread :: "store \<Rightarrow> ref \<Rightarrow> ref \<times> store" where
  "spread s r = (Local (length (locals s)), s\<lparr>locals := locals s @ [deref s r]\<rparr>)"

section \<open>Errors\<close>

text \<open>
  \<open>BadRequest msg\<close> is the response \<open>res.status(400).json({ error: msg })\<close>.
  \<open>TypeError\<close> is the exception a handler lets escape (a method call on \<open>undefined\<close>);
  the framework turns it into a server error.
\<close>

datatype error = BadRequest string | TypeError

section \<open>\<open>Array.prototype.sort\<close> with a comparator\<close>

text \<open>
  Since ECMAScript 2019 the sort is stable, and for a consistent comparator its result is
  determined: the stably sorted permutation.  The model computes it by insertion, calling
  the comparator on (new element, element already placed).  A comparator that throws
  ends the sort with its exception; it is called at all only when the array has at
  least two elements.
\<close>

fun insertSorted :: "('a \<Rightarrow> 'a \<Rightarrow> error + int) \<Rightarrow> 'a \<Rightarrow> 'a list \<Rightarrow> error + 'a list" where
  "insertSorted comparefn x [] = Inr [x]"
| "insertSorted comparefn x (y # ys) =
     (case comparefn x y of
        Inl e \<Rightarrow> Inl e
      | Inr v \<Rightarrow>
          if v \<le> 0 then Inr (x # y # ys)
          else (case insertSorted comparefn x ys of
                  Inl e \<Rightarrow> Inl e
                | Inr zs \<Rightarrow> Inr (y # zs)))"

fun arraySort :: "('a \<Rightarrow> 'a \<Rightarrow> error + int) \<Rightarrow> 'a list \<Rightarrow> error + 'a list" where
  "arraySort comparefn [] = Inr []"
| "arraySort comparefn (x # xs) =
     (case arraySort comparefn xs of
        Inl e \<Rightarrow> Inl e
      | Inr ys \<Rightarrow> insertSorted comparefn x ys)"

definition sortInPlace ::
    "(product \<Rightarrow> product \<Rightarrow> error + int) \<Rightarrow> ref \<Rightarrow> store \<Rightarrow> error + store" where
  "sortInPlace comparefn r s =
     (case arraySort comparefn (deref s r) of
        Inl e \<Rightarrow> Inl e
      | Inr ys \<Rightarrow> Inr (assign s r ys))"

section \<open>The request handlers\<close>

text \<open>
  \<open>req.query\<close> maps a parameter name to its string, or to nothing when the parameter is
  absent.  (Repeated and bracketed parameters, which the query parser turns into arrays
  and objects, are outside the model.)
\<close>

type_synonym query = "string \<rightharpoonup> string"

text \<open>\<open>v || d\<close> for a string or \<open>undefined\<close>: the empty string is falsy too.\<close>

definition truthy :: "string option \<Rightarrow> bool" where
  "truthy v = (case v of None \<Rightarrow> False | Some s \<Rightarrow> s \<noteq> [])"

definition strOr :: "string option \<Rightarrow> string \<Rightarrow> string" where
  "strOr v d = (if truthy v then the v else d)"

subsection \<open>\<open>GET /api/users\<close> and \<open>GET /api/products\<close>\<close>

definition usersHandler :: "store \<Rightarrow> query \<Rightarrow> (error + user results) \<times> store" where
  "usersHandler s query =
     (let page = intOr (parseInt (query ''page'')) 1;
          limit = intOr (parseInt (query ''limit'')) 10
      in if page < 1 \<or> limit < 1
         then (Inl (BadRequest ''Page and limit must be positive numbers''), s)
         else if limit > 50
         then (Inl (BadRequest ''Limit cannot exceed 50''), s)
         else (Inr (paginate (users s) page limit), s))"

definition productsHandler :: "store \<Rightarrow> query \<Rightarrow> (error + product results) \<times> store" where
  "productsHandler s query =
     (let page = intOr (parseInt (query ''page'')) 1;
          limit = intOr (parseInt (query ''limit'')) 10
      in if page < 1 \<or> limit < 1
         then (Inl (BadRequest ''Page and limit must be positive numbers''), s)
         else if limit > 50
         then (Inl (BadRequest ''Limit cannot exceed 50''), s)
         else (Inr (paginate (products s) page limit), s))"

subsection \<open>\<open>GET /api/users/search\<close>\<close>

text \<open>The \<open>users.filter(...)\<close> call of the handler.\<close>

definition searchFilter :: "user list \<Rightarrow> string \<Rightarrow> user list" where
  "searchFilter us searchTerm =
     filter (\<lambda>user.
        includes_str (toLowerCase (user_name user)) (toLowerCase searchTerm) \<or>
        includes_str (toLowerCase (email user)) (toLowerCase searchTerm) \<or>
        includes_str (toLowerCase (city user)) (toLowerCase searchTerm)) us"

text \<open>The response is the envelope with the added field \<open>searchTerm\<close>.\<close>

definition searchHandler :: "store \<Rightarrow> query \<Rightarrow> (error + user results \<times> string) \<times> store" where
  "searchHandler s query =
     (let page = intOr (parseInt (query ''page'')) 1;
          limit = intOr (parseInt (query ''limit'')) 10;
          searchTerm = strOr (query ''q'') [];
          filteredUsers = searchFilter (users s) searchTerm;
          result = paginate filteredUsers page limit
      in (Inr (result, searchTerm), s))"

subsection \<open>\<open>GET /api/products/filter\<close>\<close>

text \<open>\<open>x <= n\<close> for an integer \<open>x\<close> and a number \<open>n\<close>.\<close>

definition leNumber :: "int \<Rightarrow> number \<Rightarrow> bool" where
  "leNumber x n = (case n of Num m \<Rightarrow> x \<le> m | Infinity \<Rightarrow> True | NaN \<Rightarrow> False)"

text \<open>The two \<open>filter\<close> calls of the handler, on the values the handler has parsed.\<close>

definition attributeFilter ::
    "product list \<Rightarrow> string option \<Rightarrow> int \<Rightarrow> number \<Rightarrow> product list" where
  "attributeFilter ps categoryParam minPrice maxPrice =
     (let filteredProducts =
            filter (\<lambda>product. price product \<ge> minPrice \<and> leNumber (price product) maxPrice) ps
      in if truthy categoryParam
         then filter (\<lambda>p. toLowerCase (category p) = toLowerCase (the categoryParam))
                filteredProducts
         else filteredProducts)"

text \<open>The response is the envelope with the added field \<open>filters\<close>.\<close>

definition filterHandler ::
    "store \<Rightarrow> query \<Rightarrow> (error + product results \<times> (string option \<times> int \<times> number)) \<times> store" where
  "filterHandler s query =
     (let page = intOr (parseInt (query ''page'')) 1;
          limit = intOr (parseInt (query ''limit'')) 10;
          categoryParam = query ''category'';
          minPrice = intOr (parseInt (query ''minPrice'')) 0;
          maxPrice = orDefault (parseInt (query ''maxPrice'')) Infinity;
          filteredProducts = attributeFilter (products s) categoryParam minPrice maxPrice;
          result = paginate filteredProducts page limit
      in (Inr (result, (categoryParam, minPrice, maxPrice)), s))"

subsection \<open>\<open>GET /api/products/sorted\<close>\<close>

text \<open>
  \<open>a[sortBy]\<close> on a product.  \<open>Undefined\<close> also stands for the inherited properties
  (\<open>constructor\<close>, \<open>toString\<close>, ...): like \<open>undefined\<close> they have no callable
  \<open>localeCompare\<close>.
\<close>

datatype jsvalue = NumV int | StrV string | Undefined

definition getProp :: "product \<Rightarrow> string \<Rightarrow> jsvalue" where
  "getProp a key =
     (if key = ''id'' then NumV (product_id a)
      else if key = ''name'' then StrV (product_name a)
      else if key = ''price'' then NumV (price a)
      else if key = ''category'' then StrV (category a)
      else if key = ''stock'' then NumV (stock a)
      else Undefined)"

text \<open>
  The comparator of the handler.  \<open>localeCompare\<close> is the runtime's collation and is a
  parameter.  In the numeric branch the operands are always numbers.
\<close>

definition compareProducts ::
    "(string \<Rightarrow> string \<Rightarrow> int) \<Rightarrow> string \<Rightarrow> string \<Rightarrow> product \<Rightarrow> product \<Rightarrow> error + int" where
  "compareProducts localeCompare sortBy order a b =
     (case (if sortBy = ''price'' \<or> sortBy = ''id'' \<or> sortBy = ''stock''
            then (case (getProp a sortBy, getProp b sortBy) of
                    (NumV x, NumV y) \<Rightarrow> Inr (x - y)
                  | _ \<Rightarrow> Inl TypeError)
            else (case (getProp a sortBy, getProp b sortBy) of
                    (StrV x, StrV y) \<Rightarrow> Inr (localeCompare x y)
                  | _ \<Rightarrow> Inl TypeError)) of
        Inl e \<Rightarrow> Inl e
      | Inr comparison \<Rightarrow> Inr (if order = ''desc'' then - comparison else comparison))"

text \<open>\<open>[...products].sort(...)\<close>: the copy is sorted, and the copy is the result.\<close>

definition sortProducts ::
    "(string \<Rightarrow> string \<Rightarrow> int) \<Rightarrow> string \<Rightarrow> string \<Rightarrow> store \<Rightarrow> (error + product list) \<times> store" where
  "sortProducts localeCompare sortBy order s =
     (let (r, s1) = spread s ProductsRef
      in case sortInPlace (compareProducts localeCompare sortBy order) r s1 of
           Inl e \<Rightarrow> (Inl e, s1)
         | Inr s2 \<Rightarrow> (Inr (deref s2 r), s2))"

text \<open>The response is the envelope with the added field \<open>sorting\<close>.\<close>

definition sortedHandler ::
    "(string \<Rightarrow> string \<Rightarrow> int) \<Rightarrow> store \<Rightarrow> query \<Rightarrow>
       (error + product results \<times> (string \<times> string)) \<times> store" where
  "sortedHandler localeCompare s query =
     (let page = intOr (parseInt (query ''page'')) 1;
          limit = intOr (parseInt (query ''limit'')) 10;
          sortBy = strOr (query ''sortBy'') ''id'';
          order = strOr (query ''order'') ''asc''
      in case sortProducts localeCompare sortBy order s of
           (Inl e, s') \<Rightarrow> (Inl e, s')
         | (Inr sortedProducts, s') \<Rightarrow>
             (Inr (paginate sortedProducts page limit, (sortBy, order)), s'))"

subsection \<open>\<open>GET /api/users/cursor\<close>\<close>

record cursor_results =
  page_data :: "user list"
  nextCursor :: "int option"
  hasMore :: bool

text \<open>The body of the handler, on the values it has parsed; \<open>null\<close> is \<open>None\<close>.\<close>

definition cursorPaginate :: "user list \<Rightarrow> int \<Rightarrow> int \<Rightarrow> cursor_results" where
  "cursorPaginate = (\<lambda>us cursor limit.
     let filteredUsers = filter (\<lambda>user. user_id user > cursor) us;
         paginatedUsers = slice filteredUsers 0 limit;
         hasMore = int (length filteredUsers) > limit;
         nextCursor =
           (if length paginatedUsers > 0
            then Some (user_id (paginatedUsers ! (length paginatedUsers - 1)))
            else None)
     in \<lparr> page_data = paginatedUsers,
          nextCursor = (if hasMore then nextCursor else None),
          hasMore = hasMore \<rparr>)"

definition cursorHandler :: "store \<Rightarrow> query \<Rightarrow> (error + cursor_results) \<times> store" where
  "cursorHandler s query =
     (let limit = intOr (parseInt (query ''limit'')) 10;
          cursor = intOr (parseInt (query ''cursor'')) 0
      in (Inr (cursorPaginate (users s) cursor limit), s))"

section \<open>Sample stores\<close>

text \<open>
  One outcome of the generators, and a small store for concrete examples.
\<close>

definition sampleStore :: store where
  "sampleStore =
     \<lparr> users = makeUsers (\<lambda>i. (7 * i) mod 50) (\<lambda>i. i mod 5),
       products = makeProducts (\<lambda>i. (37 * i) mod 1000) (\<lambda>i. i mod 5) (\<lambda>i. (13 * i) mod 100),
       locals = [] \<rparr>"

definition smallStore :: store where
  "smallStore =
     \<lparr> users =
         [\<lparr> user_id = 1, user_name = ''User1'', email = ''user1@example.com'', age = 30,
            city = ''Chicago'' \<rparr>,
          \<lparr> user_id = 2, user_name = ''User2'', email = ''user2@example.com'', age = 41,
            city = ''Houston'' \<rparr>,
          \<lparr> user_id = 3, user_name = ''User3'', email = ''user3@example.com'', age = 25,
            city = ''New York'' \<rparr>],
       products =
         [\<lparr> product_id = 1, product_name = ''Product 1'', price = 250, category = ''Books'',
            stock = 7 \<rparr>,
          \<lparr> product_id = 2, product_name = ''Product 2'', price = 40, category = ''Toys'',
            stock = 0 \<rparr>,
          \<lparr> product_id = 3, product_name = ''Product 3'', price = 250, category = ''Food'',
            stock = 12 \<rparr>],
       locals = [] \<rparr>"

section \<open>The search and the attribute filter in the words of the specification\<close>

text \<open>
  A term is a case-insensitive substring of a string when some contiguous part of the
  string equals the term up to the case of its letters: position by position, the two
  characters are the same, or one is an upper-case letter and the other its lower-case
  form.
\<close>

definition isUpperCase :: "char \<Rightarrow> bool" where
  "isUpperCase c = (65 \<le> (of_char c :: nat) \<and> (of_char c :: nat) \<le> 90)"

definition sameLetter :: "char \<Rightarrow> char \<Rightarrow> bool" where
  "sameLetter c d =
     (c = d \<or>
      (isUpperCase c \<and> (of_char d :: nat) = of_char c + 32) \<or>
      (isUpperCase d \<and> (of_char c :: nat) = of_char d + 32))"

definition equalIgnoringCase :: "string \<Rightarrow> string \<Rightarrow> bool" where
  "equalIgnoringCase a b = list_all2 sameLetter a b"

definition caseInsensitiveSubstring :: "string \<Rightarrow> string \<Rightarrow> bool" where
  "caseInsensitiveSubstring t s = (\<exists>p w r. s = p @ w @ r \<and> equalIgnoringCase w t)"

text \<open>
  The attribute filter as the specification words it: a price bound is its default when
  the parameter is absent or not numeric, and the supplied number otherwise; a supplied
  category restricts the result.
\<close>

definition suppliedBound :: "string option \<Rightarrow> number \<Rightarrow> number" where
  "suppliedBound v d = (case parseInt v of None \<Rightarrow> d | Some n \<Rightarrow> Num n)"

definition numberLe :: "number \<Rightarrow> int \<Rightarrow> bool" where
  "numberLe n x = (case n of Num m \<Rightarrow> m \<le> x | Infinity \<Rightarrow> False | NaN \<Rightarrow> False)"

definition statedAttributeFilter ::
    "product list \<Rightarrow> string option \<Rightarrow> string option \<Rightarrow> string option \<Rightarrow> product list" where
  "statedAttributeFilter ps categoryParam minParam maxParam =
     filter (\<lambda>p. numberLe (suppliedBound minParam (Num 0)) (price p) \<and>
                 leNumber (price p) (suppliedBound maxParam Infinity) \<and>
                 (case categoryParam of
                    None \<Rightarrow> True
                  | Some c \<Rightarrow> toLowerCase (category p) = toLowerCase c)) ps"

section \<open>Notions used to state the sort properties\<close>

text \<open>
  The value of the handler's variable \<open>comparison\<close> for two products, when the
  comparator does not throw.
\<close>

definition comparison :: "(string \<Rightarrow> string \<Rightarrow> int) \<Rightarrow> string \<Rightarrow> product \<Rightarrow> product \<Rightarrow> int" where
  "comparison localeCompare sortBy a b =
     (case compareProducts localeCompare sortBy ''asc'' a b of Inr v \<Rightarrow> v | Inl e \<Rightarrow> 0)"

text \<open>
  A comparator is consistent on a set when, there, it is reflexive, its sign flips with
  its arguments, and \<open>\<le> 0\<close> is transitive: the condition under which ECMAScript fixes the
  result of \<open>sort\<close>.
\<close>

definition consistentOn :: "'a set \<Rightarrow> ('a \<Rightarrow> 'a \<Rightarrow> int) \<Rightarrow> bool" where
  "consistentOn A d =
     ((\<forall>a\<in>A. d a a = 0) \<and>
      (\<forall>a\<in>A. \<forall>b\<in>A. (d a b < 0) = (0 < d b a)) \<and>
      (\<forall>a\<in>A. \<forall>b\<in>A. \<forall>c\<in>A. d a b \<le> 0 \<longrightarrow> d b c \<le> 0 \<longrightarrow> d a c \<le> 0))"

text \<open>A collection has no ties when no two of its elements compare as equal.\<close>

definition noTies :: "('a \<Rightarrow> 'a \<Rightarrow> int) \<Rightarrow> 'a list \<Rightarrow> bool" where
  "noTies d xs = (distinct xs \<and> (\<forall>a\<in>set xs. \<forall>b\<in>set xs. d a b = 0 \<longrightarrow> a = b))"

text \<open>The sort of \<open>arraySort\<close> for a comparator that cannot throw.\<close>

fun insertTotal :: "('a \<Rightarrow> 'a \<Rightarrow> int) \<Rightarrow> 'a \<Rightarrow> 'a list \<Rightarrow> 'a list" where
  "insertTotal d x [] = [x]"
| "insertTotal d x (y # ys) = (if d x y \<le> 0 then x # y # ys else y # insertTotal d x ys)"

fun sortTotal :: "('a \<Rightarrow> 'a \<Rightarrow> int) \<Rightarrow> 'a list \<Rightarrow> 'a list" where
  "sortTotal d [] = []"
| "sortTotal d (x # xs) = insertTotal d x (sortTotal d xs)"

text \<open>A stand-in for \<open>localeCompare\<close> in concrete examples: order by the last character.\<close>

definition lastCharCompare :: "string \<Rightarrow> string \<Rightarrow> int" where
  "lastCharCompare a b = int (of_char (last a)) - int (of_char (last b))"

section \<open>The routes, and a run of requests\<close>

text \<open>
  The six \<open>app.get\<close> registrations of the pagination API, and the response each sends:
  the JSON body of the handler, or the error.  The handlers are synchronous, so requests
  are served one after another, each from the store the previous one left.
\<close>

datatype endpoint =
  GetUsers | GetProducts | GetUsersSearch | GetProductsFilter | GetProductsSorted | GetUsersCursor

datatype response =
  UsersPage "user results"
| ProductsPage "product results"
| SearchPage "user results \<times> string"
| FilterPage "product results \<times> (string option \<times> int \<times> number)"
| SortedPage "product results \<times> (string \<times> string)"
| CursorPage cursor_results
| ErrorResponse error

definition respond :: "('a \<Rightarrow> response) \<Rightarrow> (error + 'a) \<times> store \<Rightarrow> response \<times> store" where
  "respond wrap out = (case fst out of Inl e \<Rightarrow> ErrorResponse e | Inr b \<Rightarrow> wrap b, snd out)"

definition route ::
    "(string \<Rightarrow> string \<Rightarrow> int) \<Rightarrow> endpoint \<Rightarrow> store \<Rightarrow> query \<Rightarrow> response \<times> store" where
  "route localeCompare e s query =
     (case e of
        GetUsers \<Rightarrow> respond UsersPage (usersHandler s query)
      | GetProducts \<Rightarrow> respond ProductsPage (productsHandler s query)
      | GetUsersSearch \<Rightarrow> respond SearchPage (searchHandler s query)
      | GetProductsFilter \<Rightarrow> respond FilterPage (filterHandler s query)
      | GetProductsSorted \<Rightarrow> respond SortedPage (sortedHandler localeCompare s query)
      | GetUsersCursor \<Rightarrow> respond CursorPage (cursorHandler s query))"

fun serveAll ::
    "(string \<Rightarrow> string \<Rightarrow> int) \<Rightarrow> (endpoint \<times> query) list \<Rightarrow> store \<Rightarrow> response list \<times> store" where
  "serveAll localeCompare [] s = ([], s)"
| "serveAll localeCompare ((e, query) # requests) s =
     (let (r, s1) = route localeCompare e s query;
          (rs, s2) = serveAll localeCompare requests s1
      in (r # rs, s2))"

section \<open>Falsy parameters\<close>


section \<open>Properties of the pagination helper\<close>

lemma slice_nonneg:
  "0 \<le> s \<Longrightarrow> s \<le> e \<Longrightarrow> slice xs s e = take (nat (e - s)) (drop (nat s) xs)"
proof -
  assume s: "0 \<le> s" and e: "s \<le> e"
  have d: "nat e - nat s = nat (e - s)"
    using s e by (simp add: nat_diff_distrib)
  consider "nat e \<le> length xs" | "nat s \<le> length xs" "length xs < nat e" | "length xs < nat s"
    by linarith
  then show ?thesis
  proof cases
    case 1
    then show ?thesis
      using s e d by (simp add: slice_def relativeIndex_def Let_def min_def)
  next
    case 2
    then have "length xs - nat s \<le> nat (e - s)"
      using d by linarith
    then show ?thesis
      using 2 s e by (simp add: slice_def relativeIndex_def Let_def min_def)
  next
    case 3
    then show ?thesis
      using s e by (simp add: slice_def relativeIndex_def Let_def min_def)
  qed
qed

lemma ceilDiv_real:
  "d \<noteq> 0 \<Longrightarrow> ceilDiv n d = Num \<lceil>real n / real_of_int d\<rceil>"
proof -
  assume "d \<noteq> 0"
  have "\<lceil>real n / real_of_int d\<rceil> = \<lceil>real_of_int (int n) / real_of_int d\<rceil>"
    by simp
  also have "\<dots> = - ((- int n) div d)"
    by (rule ceiling_divide_eq_div)
  finally show ?thesis
    using \<open>d \<noteq> 0\<close> by (simp add: ceilDiv_def)
qed

lemma less_ceiling_div:
  fixes p l :: int
  assumes "0 < l"
  shows "p < \<lceil>real n / real_of_int l\<rceil> \<longleftrightarrow> p * l < int n"
proof -
  have "p < \<lceil>real n / real_of_int l\<rceil> \<longleftrightarrow> real_of_int p < real n / real_of_int l"
    by (simp add: less_ceiling_iff)
  also have "\<dots> \<longleftrightarrow> real_of_int p * real_of_int l < real n"
    using assms by (simp add: pos_less_divide_eq)
  also have "\<dots> \<longleftrightarrow> real_of_int (p * l) < real_of_int (int n)"
    by simp
  also have "\<dots> \<longleftrightarrow> p * l < int n"
    by (rule of_int_less_iff)
  finally show ?thesis .
qed

section \<open>Offset pagination\<close>

text \<open>
  Claim C1.  For every sequence, every page \<open>p \<ge> 1\<close> and every limit \<open>l\<close> in \<open>1..50\<close>,
  \<open>paginate\<close> returns an envelope whose \<open>total\<close> is the length of the sequence, whose
  \<open>totalPages\<close> is the ceiling of \<open>total / l\<close>, which echoes the page and the limit,
  whose \<open>data\<close> is the sub-sequence from index \<open>(p - 1) * l\<close> up to \<open>p * l\<close>, of
  length \<open>min l (max 0 (total - (p - 1) * l))\<close>, whose \<open>next\<close> is present exactly when
  \<open>p * l < total\<close>, that is when \<open>p < totalPages\<close>, and whose \<open>previous\<close> is present
  exactly when \<open>(p - 1) * l > 0\<close>, that is when \<open>p > 1\<close>.
\<close>

theorem paginate_envelope:
  assumes "1 \<le> p" and "1 \<le> l" and "l \<le> 50"
  shows "let r = paginate xs p l in
           total_r r = length xs \<and>
           totalPages r = Num \<lceil>real (length xs) / real_of_int l\<rceil> \<and>
           currentPage r = p \<and>
           limit r = l \<and>
           data r = take (nat l) (drop (nat ((p - 1) * l)) xs) \<and>
           int (length (data r)) = min l (max 0 (int (length xs) - (p - 1) * l)) \<and>
           next r = (if p * l < int (length xs) then Some (p + 1, l) else None) \<and>
           (next r \<noteq> None \<longleftrightarrow> p < \<lceil>real (length xs) / real_of_int l\<rceil>) \<and>
           previous r = (if 0 < (p - 1) * l then Some (p - 1, l) else None) \<and>
           (previous r \<noteq> None \<longleftrightarrow> 1 < p)"
proof -
  let ?s = "(p - 1) * l"
  have s0: "0 \<le> ?s" using assms by simp
  have se: "?s \<le> p * l" using assms by (simp add: mult_right_mono)
  have diff: "p * l - ?s = l" by (simp add: algebra_simps)
  have d: "slice xs ?s (p * l) = take (nat l) (drop (nat ?s) xs)"
    using slice_nonneg [OF s0 se] diff by simp
  have len: "int (length (take (nat l) (drop (nat ?s) xs))) = min l (max 0 (int (length xs) - ?s))"
  proof -
    define s where "s = ?s"
    have "0 \<le> s" using s0 by (simp add: s_def)
    then have "int (length (take (nat l) (drop (nat s) xs))) = min l (max 0 (int (length xs) - s))"
      using assms(2) by (simp add: min_def max_def) linarith
    then show ?thesis by (simp add: s_def)
  qed
  have nx: "p < \<lceil>real (length xs) / real_of_int l\<rceil> \<longleftrightarrow> p * l < int (length xs)"
    using assms by (intro less_ceiling_div) simp
  have pv: "0 < ?s \<longleftrightarrow> 1 < p"
    using assms by (simp add: zero_less_mult_iff)
  have tp: "ceilDiv (length xs) l = Num \<lceil>real (length xs) / real_of_int l\<rceil>"
    using assms by (intro ceilDiv_real) simp
  show ?thesis
    unfolding Let_def paginate_def
    using d len nx pv tp by simp
qed

theorem paginate_envelope_witness:
  "(1::int) \<le> 2 \<and> (1::int) \<le> 3 \<and> (3::int) \<le> 50 \<and>
   data (paginate [10, 20, 30, 40, 50, 60, 70 :: int] 2 3) = [40, 50, 60] \<and>
   total_r (paginate [10, 20, 30, 40, 50, 60, 70 :: int] 2 3) = 7 \<and>
   totalPages (paginate [10, 20, 30, 40, 50, 60, 70 :: int] 2 3) = Num 3 \<and>
   next (paginate [10, 20, 30, 40, 50, 60, 70 :: int] 2 3) = Some (3, 3) \<and>
   previous (paginate [10, 20, 30, 40, 50, 60, 70 :: int] 2 3) = Some (1, 3)"
  using paginate_envelope [of 2 3 "[10, 20, 30, 40, 50, 60, 70 :: int]"]
  by (simp add: Let_def)

section \<open>Cursor pagination\<close>

lemma slice_from_zero: "0 \<le> l \<Longrightarrow> slice xs 0 l = take (nat l) xs"
  using slice_nonneg [of 0 l xs] by simp

lemma sorted_map_filter: "sorted (map f xs) \<Longrightarrow> sorted (map f (filter P xs))"
  by (induction xs) auto

lemma sorted_map_take: "sorted (map f xs) \<Longrightarrow> sorted (map f (take n xs))"
  by (simp add: take_map [symmetric] sorted_wrt_take)

text \<open>
  Claim C3.  For every cursor and every limit \<open>l \<ge> 1\<close> (\<open>l = 0\<close> included here),
  the cursor page holds the first \<open>l\<close> users whose id is greater than the cursor, in
  ascending id order when the collection is in ascending id order; \<open>hasMore\<close> is true
  exactly when more than \<open>l\<close> users have an id greater than the cursor; and
  \<open>nextCursor\<close> is the id of the last user returned, or null when no user was returned
  or \<open>hasMore\<close> is false.
\<close>

theorem cursorPaginate_spec:
  assumes "0 \<le> l"
  shows "let r = cursorPaginate us c l;
             after = filter (\<lambda>u. c < user_id u) us
         in page_data r = take (nat l) after \<and>
            (sorted (map user_id us) \<longrightarrow> sorted (map user_id (page_data r))) \<and>
            hasMore r = (l < int (length after)) \<and>
            nextCursor r =
              (if page_data r = [] \<or> \<not> hasMore r then None
               else Some (user_id (last (page_data r))))"
proof -
  let ?after = "filter (\<lambda>u. c < user_id u) us"
  let ?d = "take (nat l) ?after"
  have d: "slice ?after 0 l = ?d"
    using assms by (rule slice_from_zero)
  have srt: "sorted (map user_id us) \<longrightarrow> sorted (map user_id ?d)"
    by (simp add: sorted_map_filter sorted_map_take)
  have lst: "?d \<noteq> [] \<Longrightarrow> ?d ! (length ?d - 1) = last ?d"
    by (simp add: last_conv_nth)
  show ?thesis
    unfolding Let_def cursorPaginate_def d
    using srt lst by auto
qed

theorem cursorPaginate_spec_witness:
  "(0::int) \<le> 1 \<and>
   sorted (map user_id (users smallStore)) \<and>
   map user_id (page_data (cursorPaginate (users smallStore) 1 1)) = [2] \<and>
   sorted (map user_id (page_data (cursorPaginate (users smallStore) 1 1))) \<and>
   hasMore (cursorPaginate (users smallStore) 1 1) \<and>
   nextCursor (cursorPaginate (users smallStore) 1 1) = Some 2"
  using cursorPaginate_spec [of 1 "users smallStore" 1]
  by (simp add: Let_def smallStore_def)

lemma parseInt_None: "parseInt None = None"
  by code_simp

lemma parseInt_95: "parseInt (Some ''95'') = Some 95"
  by code_simp

lemma parseInt_10: "parseInt (Some ''10'') = Some 10"
  by code_simp

lemma filter_ge_upt: "filter (\<lambda>i. m \<le> i) [0..<n] = [m..<n]"
  by (induction n) auto

lemma makeUsers_after:
  assumes "0 \<le> k"
  shows "filter (\<lambda>u. k < user_id u) (makeUsers a c) = drop (nat k) (makeUsers a c)"
proof -
  have "(\<lambda>i::nat. k < int i + 1) = (\<lambda>i. nat k \<le> i)"
    using assms by (intro ext) linarith
  then show ?thesis
    by (simp add: makeUsers_def filter_map comp_def filter_ge_upt drop_map)
qed

lemma makeUsers_ids: "map user_id (makeUsers a c) = map (\<lambda>i. int i + 1) [0..<100]"
  by (simp add: makeUsers_def comp_def)

lemma last_ids: "drop 95 (map (\<lambda>i. int i + 1) [0..<100]) = [96, 97, 98, 99, 100]"
  by code_simp

lemma cursorPaginate_95:
  "cursorPaginate (makeUsers a c) 95 10 =
     \<lparr> page_data = drop 95 (makeUsers a c), nextCursor = None, hasMore = False \<rparr>"
proof -
  have len: "length (makeUsers a c) = 100"
    by (simp add: makeUsers_def)
  have f: "filter (\<lambda>u. 95 < user_id u) (makeUsers a c) = drop 95 (makeUsers a c)"
    using makeUsers_after [of 95 a c] by simp
  have s: "slice (drop 95 (makeUsers a c)) 0 10 = drop 95 (makeUsers a c)"
    using len by (simp add: slice_from_zero)
  show ?thesis
    unfolding cursorPaginate_def Let_def f s using len by simp
qed

text \<open>
  Claim C4, as amended.  For the collection of users with ids 1 to 100, whatever the random
  draws, the request \<open>cursor=95&limit=10\<close> returns exactly the five users with ids 96 to
  100, with \<open>hasMore = false\<close>; and since \<open>hasMore\<close> is false, \<open>nextCursor\<close> is null.
\<close>

theorem cursor_95_example:
  "fst (cursorHandler \<lparr> users = makeUsers a c, products = ps, locals = ls \<rparr>
          [''cursor'' \<mapsto> ''95'', ''limit'' \<mapsto> ''10'']) =
     Inr \<lparr> page_data = drop 95 (makeUsers a c), nextCursor = None, hasMore = False \<rparr> \<and>
   map user_id (drop 95 (makeUsers a c)) = [96, 97, 98, 99, 100]"
proof -
  have ids: "map user_id (drop 95 (makeUsers a c)) = [96, 97, 98, 99, 100]"
    using last_ids by (simp add: drop_map [symmetric] makeUsers_ids del: drop_map)
  show ?thesis
    using cursorPaginate_95 [of a c] ids
    by (simp add: cursorHandler_def Let_def parseInt_95 parseInt_10 intOr_def orDefault_def)
qed

text \<open>
  The claim as stated gives \<open>nextCursor = 100\<close> for this request; on the generated
  collection the handler answers null.
\<close>

theorem cursor_95_nextCursor_is_null:
  "nextCursor (cursorPaginate (users sampleStore) 95 10) \<noteq> Some 100"
  by (simp add: sampleStore_def cursorPaginate_95)

section \<open>Parameter parsing and validation\<close>

lemma parseInt_0: "parseInt (Some ''0'') = Some 0"
  by code_simp

lemma parseInt_1: "parseInt (Some ''1'') = Some 1"
  by code_simp

lemma parseInt_51: "parseInt (Some ''51'') = Some 51"
  by code_simp

lemma parseInt_999: "parseInt (Some ''999'') = Some 999"
  by code_simp

lemma parseInt_1000: "parseInt (Some ''1000'') = Some 1000"
  by code_simp

lemma parseInt_minus_1: "parseInt (Some ''-1'') = Some (- 1)"
  by code_simp

lemma intOr_simps:
  "intOr None d = d"
  "intOr (Some 0) d = d"
  "n \<noteq> 0 \<Longrightarrow> intOr (Some n) d = n"
  by (simp_all add: intOr_def orDefault_def)

text \<open>
  Claim C5.  The cursor endpoint enforces no upper bound on the limit: whenever the limit
  parameter yields a value above 50 (for instance \<open>limit=1000\<close>), the request succeeds
  with the first \<open>limit\<close> users after the cursor, so with at most that many, and never
  with a validation error; the offset endpoints reject the same request.
\<close>

theorem cursor_limit_unbounded:
  assumes "intOr (parseInt (q ''limit'')) 10 = l" and "50 < l"
  shows "fst (cursorHandler s q) =
           Inr (cursorPaginate (users s) (intOr (parseInt (q ''cursor'')) 0) l) \<and>
         page_data (cursorPaginate (users s) (intOr (parseInt (q ''cursor'')) 0) l) =
           take (nat l) (filter (\<lambda>u. intOr (parseInt (q ''cursor'')) 0 < user_id u) (users s)) \<and>
         int (length (page_data (cursorPaginate (users s) (intOr (parseInt (q ''cursor'')) 0) l))) \<le> l \<and>
         fst (usersHandler s q) \<in>
           {Inl (BadRequest ''Page and limit must be positive numbers''),
            Inl (BadRequest ''Limit cannot exceed 50'')} \<and>
         fst (productsHandler s q) \<in>
           {Inl (BadRequest ''Page and limit must be positive numbers''),
            Inl (BadRequest ''Limit cannot exceed 50'')}"
proof -
  have "0 \<le> l" using assms(2) by simp
  then have d: "page_data (cursorPaginate (users s) (intOr (parseInt (q ''cursor'')) 0) l) =
      take (nat l) (filter (\<lambda>u. intOr (parseInt (q ''cursor'')) 0 < user_id u) (users s))"
    by (simp add: cursorPaginate_def Let_def slice_from_zero)
  have n: "int (length (page_data (cursorPaginate (users s) (intOr (parseInt (q ''cursor'')) 0) l))) \<le> l"
    using \<open>0 \<le> l\<close> unfolding d by simp
  have c: "fst (cursorHandler s q) =
      Inr (cursorPaginate (users s) (intOr (parseInt (q ''cursor'')) 0) l)"
    using assms(1) by (simp add: cursorHandler_def Let_def)
  have u: "fst (usersHandler s q) \<in>
      {Inl (BadRequest ''Page and limit must be positive numbers''),
       Inl (BadRequest ''Limit cannot exceed 50'')}"
    using assms by (simp add: usersHandler_def Let_def)
  have p: "fst (productsHandler s q) \<in>
      {Inl (BadRequest ''Page and limit must be positive numbers''),
       Inl (BadRequest ''Limit cannot exceed 50'')}"
    using assms by (simp add: productsHandler_def Let_def)
  show ?thesis using d n c u p by simp
qed

theorem cursor_limit_unbounded_witness:
  "intOr (parseInt ([''limit'' \<mapsto> ''1000''] ''limit'')) 10 = 1000 \<and> (50::int) < 1000 \<and>
   fst (cursorHandler smallStore [''limit'' \<mapsto> ''1000'']) =
     Inr \<lparr> page_data = users smallStore, nextCursor = None, hasMore = False \<rparr> \<and>
   fst (usersHandler smallStore [''limit'' \<mapsto> ''1000'']) =
     Inl (BadRequest ''Limit cannot exceed 50'')"
proof -
  have l: "intOr (parseInt ([''limit'' \<mapsto> ''1000''] ''limit'')) 10 = 1000"
    by (simp add: parseInt_1000 intOr_simps)
  have c: "intOr (parseInt ([''limit'' \<mapsto> ''1000''] ''cursor'')) 0 = 0"
    by (simp add: parseInt_None intOr_simps)
  have r: "cursorPaginate (users smallStore) 0 1000 =
      \<lparr> page_data = users smallStore, nextCursor = None, hasMore = False \<rparr>"
    by (simp add: cursorPaginate_def Let_def slice_from_zero smallStore_def)
  have u: "fst (usersHandler smallStore [''limit'' \<mapsto> ''1000'']) =
     Inl (BadRequest ''Limit cannot exceed 50'')"
    by (simp add: usersHandler_def Let_def parseInt_1000 parseInt_None intOr_simps)
  show ?thesis
    using cursor_limit_unbounded [of "[''limit'' \<mapsto> ''1000'']" 1000 smallStore] l c r u by simp
qed

lemma usersHandler_accepts:
  assumes "intOr (parseInt (q ''page'')) 1 = p" and "intOr (parseInt (q ''limit'')) 10 = l"
    and "1 \<le> p" and "1 \<le> l" and "l \<le> 50"
  shows "usersHandler s q = (Inr (paginate (users s) p l), s)"
  using assms by (simp add: usersHandler_def Let_def)

lemma productsHandler_accepts:
  assumes "intOr (parseInt (q ''page'')) 1 = p" and "intOr (parseInt (q ''limit'')) 10 = l"
    and "1 \<le> p" and "1 \<le> l" and "l \<le> 50"
  shows "productsHandler s q = (Inr (paginate (products s) p l), s)"
  using assms by (simp add: productsHandler_def Let_def)

lemma usersHandler_rejects_nonpositive:
  assumes "intOr (parseInt (q ''page'')) 1 < 1 \<or> intOr (parseInt (q ''limit'')) 10 < 1"
  shows "usersHandler s q = (Inl (BadRequest ''Page and limit must be positive numbers''), s)"
  using assms by (simp add: usersHandler_def Let_def)

lemma usersHandler_rejects_large:
  assumes "1 \<le> intOr (parseInt (q ''page'')) 1" and "50 < intOr (parseInt (q ''limit'')) 10"
  shows "usersHandler s q = (Inl (BadRequest ''Limit cannot exceed 50''), s)"
  using assms by (simp add: usersHandler_def Let_def)

lemma paginate_beyond:
  "paginate (users smallStore) 999 10 =
     \<lparr> total_r = 3, totalPages = Num 1, currentPage = 999, limit = 10, next = None,
       previous = Some (998, 10), data = [] \<rparr>"
proof -
  have "slice (users smallStore) 9980 9990 = take (nat (9990 - 9980)) (drop (nat 9980) (users smallStore))"
    by (rule slice_nonneg) simp_all
  then have "slice (users smallStore) 9980 9990 = []"
    by (simp add: smallStore_def)
  then show ?thesis
    by (simp add: paginate_def ceilDiv_def smallStore_def)
qed

text \<open>
  Claim C2.  The claim wants \<open>page=0\<close> and \<open>limit=0\<close> rejected by the offset endpoints.
  They are not: \<open>parseInt\<close> gives \<open>0\<close>, which \<open>||\<close> replaces by the default before the
  check \<open>page < 1 || limit < 1\<close> runs, so both requests are served as page 1 with limit
  10.  The rest of the claim holds: a negative page and \<open>limit=51\<close> are rejected with the
  two messages, and a page beyond the last one succeeds with empty data and no \<open>next\<close>.
\<close>

theorem offset_zero_parameters_accepted:
  "fst (usersHandler s [''page'' \<mapsto> ''0'', ''limit'' \<mapsto> ''10'']) = Inr (paginate (users s) 1 10) \<and>
   fst (usersHandler s [''page'' \<mapsto> ''1'', ''limit'' \<mapsto> ''0'']) = Inr (paginate (users s) 1 10) \<and>
   fst (productsHandler s [''page'' \<mapsto> ''0'', ''limit'' \<mapsto> ''10'']) = Inr (paginate (products s) 1 10) \<and>
   fst (productsHandler s [''page'' \<mapsto> ''1'', ''limit'' \<mapsto> ''0'']) = Inr (paginate (products s) 1 10) \<and>
   fst (usersHandler s [''page'' \<mapsto> ''-1'', ''limit'' \<mapsto> ''10'']) =
     Inl (BadRequest ''Page and limit must be positive numbers'') \<and>
   fst (usersHandler s [''page'' \<mapsto> ''1'', ''limit'' \<mapsto> ''51'']) =
     Inl (BadRequest ''Limit cannot exceed 50'') \<and>
   fst (usersHandler smallStore [''page'' \<mapsto> ''999'', ''limit'' \<mapsto> ''10'']) =
     Inr \<lparr> total_r = 3, totalPages = Num 1, currentPage = 999, limit = 10, next = None,
           previous = Some (998, 10), data = [] \<rparr>"
proof -
  have a: "fst (usersHandler s [''page'' \<mapsto> ''0'', ''limit'' \<mapsto> ''10'']) = Inr (paginate (users s) 1 10)"
    by (subst usersHandler_accepts [of _ 1 10]) (simp_all add: parseInt_0 parseInt_10 intOr_simps)
  have b: "fst (usersHandler s [''page'' \<mapsto> ''1'', ''limit'' \<mapsto> ''0'']) = Inr (paginate (users s) 1 10)"
    by (subst usersHandler_accepts [of _ 1 10]) (simp_all add: parseInt_0 parseInt_1 intOr_simps)
  have c: "fst (productsHandler s [''page'' \<mapsto> ''0'', ''limit'' \<mapsto> ''10'']) = Inr (paginate (products s) 1 10)"
    by (subst productsHandler_accepts [of _ 1 10]) (simp_all add: parseInt_0 parseInt_10 intOr_simps)
  have d: "fst (productsHandler s [''page'' \<mapsto> ''1'', ''limit'' \<mapsto> ''0'']) = Inr (paginate (products s) 1 10)"
    by (subst productsHandler_accepts [of _ 1 10]) (simp_all add: parseInt_0 parseInt_1 intOr_simps)
  have e: "fst (usersHandler s [''page'' \<mapsto> ''-1'', ''limit'' \<mapsto> ''10'']) =
     Inl (BadRequest ''Page and limit must be positive numbers'')"
    by (subst usersHandler_rejects_nonpositive) (simp_all add: parseInt_minus_1 intOr_simps)
  have f: "fst (usersHandler s [''page'' \<mapsto> ''1'', ''limit'' \<mapsto> ''51'']) =
     Inl (BadRequest ''Limit cannot exceed 50'')"
    by (subst usersHandler_rejects_large) (simp_all add: parseInt_1 parseInt_51 intOr_simps)
  have g: "fst (usersHandler smallStore [''page'' \<mapsto> ''999'', ''limit'' \<mapsto> ''10'']) =
     Inr \<lparr> total_r = 3, totalPages = Num 1, currentPage = 999, limit = 10, next = None,
           previous = Some (998, 10), data = [] \<rparr>"
    by (subst usersHandler_accepts [of _ 999 10])
       (simp_all add: parseInt_999 parseInt_10 intOr_simps paginate_beyond)
  show ?thesis
    using a b c d e f g by (intro conjI)
qed

section \<open>The collections are never written\<close>

lemma sortProducts_result:
  "sortProducts lc sortBy order s =
     (case arraySort (compareProducts lc sortBy order) (products s) of
        Inl e \<Rightarrow> (Inl e, s\<lparr>locals := locals s @ [products s]\<rparr>)
      | Inr ys \<Rightarrow> (Inr ys, s\<lparr>locals := locals s @ [ys]\<rparr>))"
  by (simp add: sortProducts_def spread_def sortInPlace_def deref_def assign_def
      split: sum.splits)

lemma sortProducts_frame:
  "users (snd (sortProducts lc sortBy order s)) = users s \<and>
   products (snd (sortProducts lc sortBy order s)) = products s"
  by (simp add: sortProducts_result split: sum.splits)

lemma sortProducts_reads_products:
  "products s' = products s \<Longrightarrow>
   fst (sortProducts lc sortBy order s') = fst (sortProducts lc sortBy order s)"
  by (simp add: sortProducts_result split: sum.splits)

lemma sortedHandler_frame:
  "users (snd (sortedHandler lc s q)) = users s \<and>
   products (snd (sortedHandler lc s q)) = products s"
proof -
  let ?sb = "strOr (q ''sortBy'') ''id''" and ?ord = "strOr (q ''order'') ''asc''"
  obtain r s' where r: "sortProducts lc ?sb ?ord s = (r, s')"
    by (cases "sortProducts lc ?sb ?ord s")
  then have "users s' = users s \<and> products s' = products s"
    using sortProducts_frame [of lc ?sb ?ord s] by simp
  moreover have "snd (sortedHandler lc s q) = s'"
    using r by (cases r) (simp_all add: sortedHandler_def Let_def)
  ultimately show ?thesis by simp
qed

lemma sortedHandler_reads_products:
  assumes "products s' = products s"
  shows "fst (sortedHandler lc s' q) = fst (sortedHandler lc s q)"
proof -
  let ?sb = "strOr (q ''sortBy'') ''id''" and ?ord = "strOr (q ''order'') ''asc''"
  obtain r t where r: "sortProducts lc ?sb ?ord s = (r, t)"
    by (cases "sortProducts lc ?sb ?ord s")
  obtain r' t' where r': "sortProducts lc ?sb ?ord s' = (r', t')"
    by (cases "sortProducts lc ?sb ?ord s'")
  have "r' = r"
    using sortProducts_reads_products [OF assms, of lc ?sb ?ord] r r' by simp
  then show ?thesis
    using r r' by (cases r) (simp_all add: sortedHandler_def Let_def)
qed

lemma plain_handlers_return_store:
  "snd (usersHandler s q) = s"
  "snd (productsHandler s q) = s"
  "snd (searchHandler s q) = s"
  "snd (filterHandler s q) = s"
  "snd (cursorHandler s q) = s"
  by (simp_all add: usersHandler_def productsHandler_def searchHandler_def filterHandler_def
      cursorHandler_def Let_def)

lemma plain_handlers_read_collections:
  assumes "users s' = users s" and "products s' = products s"
  shows "fst (usersHandler s' q) = fst (usersHandler s q)"
    and "fst (productsHandler s' q) = fst (productsHandler s q)"
    and "fst (searchHandler s' q) = fst (searchHandler s q)"
    and "fst (filterHandler s' q) = fst (filterHandler s q)"
    and "fst (cursorHandler s' q) = fst (cursorHandler s q)"
  using assms
  by (simp_all add: usersHandler_def productsHandler_def searchHandler_def filterHandler_def
      cursorHandler_def Let_def)

lemma route_frame:
  "users (snd (route lc e s q)) = users s \<and> products (snd (route lc e s q)) = products s"
  using sortedHandler_frame [of lc s q]
  by (cases e) (simp_all add: route_def respond_def plain_handlers_return_store)

lemma route_reads_collections:
  assumes "users s' = users s" and "products s' = products s"
  shows "fst (route lc e s' q) = fst (route lc e s q)"
  using plain_handlers_read_collections [OF assms, of q]
    sortedHandler_reads_products [OF assms(2), of lc q]
  by (cases e) (simp_all add: route_def respond_def)

lemma serveAll_frame:
  "users (snd (serveAll lc requests s)) = users s \<and>
   products (snd (serveAll lc requests s)) = products s"
proof (induction requests arbitrary: s)
  case Nil
  then show ?case by simp
next
  case (Cons rq requests)
  obtain e q where rq: "rq = (e, q)"
    by (cases rq)
  obtain r s1 where r: "route lc e s q = (r, s1)"
    by (cases "route lc e s q")
  have "users s1 = users s \<and> products s1 = products s"
    using route_frame [of lc e s q] r by simp
  moreover have "snd (serveAll lc (rq # requests) s) = snd (serveAll lc requests s1)"
    using rq r by (simp split: prod.splits)
  ultimately show ?case
    using Cons.IH [of s1] by simp
qed

text \<open>
  Claim C9.  No request changes the \<open>users\<close> or the \<open>products\<close> collection, at any of
  the six endpoints (the sorted endpoint writes only to the copy it has allocated), and
  neither does any run of requests.  So a repeated request, served from the store the
  first one left, gets the same response, and so does a request served after any run of
  other requests.
\<close>

theorem handlers_do_not_mutate:
  "users (snd (route lc e s q)) = users s \<and>
   products (snd (route lc e s q)) = products s \<and>
   users (snd (serveAll lc requests s)) = users s \<and>
   products (snd (serveAll lc requests s)) = products s \<and>
   fst (route lc e (snd (route lc e s q)) q) = fst (route lc e s q) \<and>
   fst (route lc e (snd (serveAll lc requests s)) q) = fst (route lc e s q)"
proof -
  have one: "users (snd (route lc e s q)) = users s \<and> products (snd (route lc e s q)) = products s"
    by (rule route_frame)
  have many: "users (snd (serveAll lc requests s)) = users s \<and>
      products (snd (serveAll lc requests s)) = products s"
    by (rule serveAll_frame)
  have again: "fst (route lc e (snd (route lc e s q)) q) = fst (route lc e s q)"
    using one by (intro route_reads_collections) simp_all
  have later: "fst (route lc e (snd (serveAll lc requests s)) q) = fst (route lc e s q)"
    using many by (intro route_reads_collections) simp_all
  show ?thesis
    using one many again later by simp
qed

section \<open>Falsy numeric parameters\<close>










subsection \<open>One falsy parameter: the request is served as if it had been left out\<close>






subsection \<open>A falsy parameter is never the reason for a rejection\<close>



subsection \<open>All numeric parameters falsy: the request succeeds, with the defaults\<close>






section \<open>Search\<close>

lemma of_char_inject: "(of_char c :: nat) = of_char d \<longleftrightarrow> c = d"
  by (metis char_of_char)

lemma lowerChar_eq_iff: "lowerChar c = lowerChar d \<longleftrightarrow> sameLetter c d"
proof -
  have up: "char_of ((of_char x :: nat) + 32) = y \<longleftrightarrow> (of_char y :: nat) = of_char x + 32"
    if "(of_char x :: nat) \<le> 90" for x y
  proof
    assume "char_of ((of_char x :: nat) + 32) = y"
    then have "(of_char y :: nat) = (of_char x + 32) mod 256"
      by (metis of_char_of)
    then show "(of_char y :: nat) = of_char x + 32"
      using that by simp
  next
    assume "(of_char y :: nat) = of_char x + 32"
    then show "char_of ((of_char x :: nat) + 32) = y"
      by (metis char_of_char)
  qed
  show ?thesis
    unfolding lowerChar_def sameLetter_def isUpperCase_def Let_def
    using up [of c d] up [of d c] up [of c "char_of ((of_char d :: nat) + 32)"]
      of_char_inject [of c d]
    by (auto simp: of_char_of)
qed

lemma lowerChar_idem: "lowerChar (lowerChar c) = lowerChar c"
proof (cases "isUpperCase c")
  case True
  then have "(of_char (lowerChar c) :: nat) = of_char c + 32"
    by (simp add: lowerChar_def isUpperCase_def Let_def of_char_of)
  then show ?thesis
    using True by (simp add: lowerChar_def [of "lowerChar c"] isUpperCase_def Let_def)
next
  case False
  then have "lowerChar c = c"
    by (auto simp: lowerChar_def isUpperCase_def Let_def)
  then show ?thesis
    by simp
qed

lemma toLowerCase_idem: "toLowerCase (toLowerCase t) = toLowerCase t"
  by (simp add: toLowerCase_def lowerChar_idem)

lemma toLowerCase_eq_iff: "toLowerCase a = toLowerCase b \<longleftrightarrow> equalIgnoringCase a b"
proof (induction a arbitrary: b)
  case Nil
  then show ?case
    by (simp add: toLowerCase_def equalIgnoringCase_def)
next
  case (Cons x xs)
  then show ?case
    by (cases b) (auto simp: toLowerCase_def equalIgnoringCase_def lowerChar_eq_iff)
qed

lemma includes_lower_iff:
  "includes_str (toLowerCase s) (toLowerCase t) \<longleftrightarrow> caseInsensitiveSubstring t s"
proof
  assume "includes_str (toLowerCase s) (toLowerCase t)"
  then obtain ps ss where "map lowerChar s = ps @ map lowerChar t @ ss"
    by (auto simp: includes_str_def sublist_def toLowerCase_def)
  then obtain p rest where s: "s = p @ rest" and rest: "map lowerChar rest = map lowerChar t @ ss"
    by (metis map_eq_append_conv)
  from rest obtain w r where "rest = w @ r" and "map lowerChar w = map lowerChar t"
    by (metis map_eq_append_conv)
  then have "s = p @ w @ r \<and> equalIgnoringCase w t"
    using s toLowerCase_eq_iff [of w t] by (simp add: toLowerCase_def)
  then show "caseInsensitiveSubstring t s"
    unfolding caseInsensitiveSubstring_def by blast
next
  assume "caseInsensitiveSubstring t s"
  then obtain p w r where s: "s = p @ w @ r" and "equalIgnoringCase w t"
    unfolding caseInsensitiveSubstring_def by blast
  then have "toLowerCase w = toLowerCase t"
    by (simp add: toLowerCase_eq_iff)
  then have "toLowerCase s = toLowerCase p @ toLowerCase t @ toLowerCase r"
    using s by (simp add: toLowerCase_def)
  then show "includes_str (toLowerCase s) (toLowerCase t)"
    by (simp add: includes_str_def)
qed

lemma toLowerCase_USER: "toLowerCase ''USER'' = ''user''"
  by code_simp

text \<open>
  Claim C6.  For every search term and every collection, the search keeps exactly the
  users for which the term is a case-insensitive substring of the name, the email or the
  city; the empty term keeps every user; the result is the collection with the other
  users left out, in the same order; and a term gives the same result as its lower-case
  form, so that searching for \<open>USER\<close> and for \<open>user\<close> give the same result.
\<close>

theorem search_case_insensitive:
  "searchFilter us t =
     filter (\<lambda>u. caseInsensitiveSubstring t (user_name u) \<or>
                 caseInsensitiveSubstring t (email u) \<or>
                 caseInsensitiveSubstring t (city u)) us \<and>
   searchFilter us [] = us \<and>
   subseq (searchFilter us t) us \<and>
   searchFilter us t = searchFilter us (toLowerCase t) \<and>
   searchFilter us ''USER'' = searchFilter us ''user''"
proof -
  have a: "searchFilter us t =
     filter (\<lambda>u. caseInsensitiveSubstring t (user_name u) \<or>
                 caseInsensitiveSubstring t (email u) \<or>
                 caseInsensitiveSubstring t (city u)) us"
    by (simp add: searchFilter_def includes_lower_iff)
  have b: "searchFilter us [] = us"
    by (simp add: searchFilter_def includes_str_def toLowerCase_def)
  have c: "subseq (searchFilter us t) us"
    by (simp add: searchFilter_def)
  have d: "searchFilter us t' = searchFilter us (toLowerCase t')" for t'
    by (simp add: searchFilter_def toLowerCase_idem)
  have e: "searchFilter us ''USER'' = searchFilter us ''user''"
    using d [of "''USER''"] by (simp only: toLowerCase_USER)
  show ?thesis
    using a b c d [of t] e by (intro conjI)
qed

section \<open>Attribute filter\<close>

lemma minPrice_value:
  "intOr (parseInt mn) 0 = (case parseInt mn of None \<Rightarrow> 0 | Some n \<Rightarrow> n)"
  by (simp add: intOr_def orDefault_def split: option.splits)

lemma maxPrice_bound:
  "leNumber x (orDefault (parseInt mx) Infinity) \<longleftrightarrow>
     (case parseInt mx of None \<Rightarrow> True | Some n \<Rightarrow> n = 0 \<or> x \<le> n)"
  by (simp add: leNumber_def orDefault_def split: option.splits)

lemma attributeFilter_as_one_filter:
  "attributeFilter ps c lo hi =
     filter (\<lambda>p. lo \<le> price p \<and> leNumber (price p) hi \<and>
                 (case c of
                    None \<Rightarrow> True
                  | Some cs \<Rightarrow> cs = [] \<or> toLowerCase (category p) = toLowerCase cs)) ps"
proof (cases c)
  case None
  then show ?thesis
    by (simp add: attributeFilter_def truthy_def)
next
  case (Some cs)
  show ?thesis
  proof (cases "cs = []")
    case True
    then show ?thesis
      using Some by (simp add: attributeFilter_def truthy_def)
  next
    case False
    then show ?thesis
      using Some by (simp add: attributeFilter_def truthy_def conj_commute conj_left_commute)
  qed
qed

text \<open>
  Claim C7, as amended.  The filter endpoint pages exactly the products with
  \<open>minPrice \<le> price \<le> maxPrice\<close>, where \<open>minPrice\<close> is the integer parsed from the
  parameter, or 0 when the parameter is absent or has no leading integer, and where
  \<open>maxPrice\<close> is the integer parsed from the parameter, or no bound at all when the
  parameter is absent, has no leading integer, or parses to 0; when a non-empty category
  is supplied, only the products whose category equals it up to case are kept.
\<close>

theorem attribute_filter_bounds:
  "fst (filterHandler s q) =
     Inr (paginate
            (filter (\<lambda>p. (case parseInt (q ''minPrice'') of None \<Rightarrow> 0 | Some n \<Rightarrow> n) \<le> price p \<and>
                        (case parseInt (q ''maxPrice'') of
                           None \<Rightarrow> True
                         | Some n \<Rightarrow> n = 0 \<or> price p \<le> n) \<and>
                        (case q ''category'' of
                           None \<Rightarrow> True
                         | Some cs \<Rightarrow> cs = [] \<or> toLowerCase (category p) = toLowerCase cs))
               (products s))
            (intOr (parseInt (q ''page'')) 1) (intOr (parseInt (q ''limit'')) 10),
          (q ''category'', intOr (parseInt (q ''minPrice'')) 0,
           orDefault (parseInt (q ''maxPrice'')) Infinity))"
  by (simp add: filterHandler_def Let_def attributeFilter_as_one_filter maxPrice_bound
      minPrice_value [symmetric])

text \<open>
  The claim as stated uses a supplied numeric \<open>maxPrice\<close> as the bound.  For
  \<open>maxPrice=0\<close> that leaves no product of the small store, whose prices are all
  positive; the handler pages all of them and reports \<open>maxPrice\<close> as \<open>Infinity\<close>.
\<close>

theorem maxPrice_zero_is_no_bound:
  "fst (filterHandler smallStore [''maxPrice'' \<mapsto> ''0'']) =
     Inr (paginate (products smallStore) 1 10, (None, 0, Infinity)) \<and>
   statedAttributeFilter (products smallStore) None None (Some ''0'') = []"
proof -
  have a: "attributeFilter (products smallStore) None 0 Infinity = products smallStore"
    by (simp add: attributeFilter_def truthy_def leNumber_def smallStore_def)
  have b: "statedAttributeFilter (products smallStore) None None (Some ''0'') = []"
    by (simp add: statedAttributeFilter_def suppliedBound_def numberLe_def leNumber_def
        parseInt_0 parseInt_None smallStore_def)
  show ?thesis
    using a b
    by (simp add: filterHandler_def Let_def parseInt_0 parseInt_None intOr_simps orDefault_def)
qed

section \<open>Sorting\<close>

subsection \<open>The sort with a comparator that does not throw\<close>

lemma insertSorted_total:
  "(\<And>a b. c a b = Inr (d a b)) \<Longrightarrow> insertSorted c x ys = Inr (insertTotal d x ys)"
  by (induction ys) simp_all

lemma arraySort_total:
  "(\<And>a b. c a b = Inr (d a b)) \<Longrightarrow> arraySort c xs = Inr (sortTotal d xs)"
  by (induction xs) (simp_all add: insertSorted_total)

lemma mset_insertTotal: "mset (insertTotal d x ys) = add_mset x (mset ys)"
  by (induction ys) simp_all

lemma mset_sortTotal: "mset (sortTotal d xs) = mset xs"
  by (induction xs) (simp_all add: mset_insertTotal)

lemma set_sortTotal: "set (sortTotal d xs) = set xs"
  by (metis mset_sortTotal set_mset_mset)

lemma distinct_sortTotal: "distinct (sortTotal d xs) = distinct xs"
  by (rule mset_eq_imp_distinct_iff) (rule mset_sortTotal)

lemma set_insertTotal: "set (insertTotal d x ys) = insert x (set ys)"
  by (induction ys) auto

subsection \<open>Stability\<close>

lemma filter_insertTotal_out: "\<not> P x \<Longrightarrow> filter P (insertTotal d x ys) = filter P ys"
  by (induction ys) simp_all

lemma filter_insertTotal_in:
  "P x \<Longrightarrow> (\<And>y. y \<in> set ys \<Longrightarrow> P y \<Longrightarrow> d x y \<le> 0) \<Longrightarrow>
   filter P (insertTotal d x ys) = x # filter P ys"
  by (induction ys) auto

lemma filter_sortTotal:
  assumes "\<And>x y. x \<in> set xs \<Longrightarrow> y \<in> set xs \<Longrightarrow> P x \<Longrightarrow> P y \<Longrightarrow> d x y \<le> 0"
  shows "filter P (sortTotal d xs) = filter P xs"
  using assms
proof (induction xs)
  case Nil
  then show ?case by simp
next
  case (Cons x xs)
  have ih: "filter P (sortTotal d xs) = filter P xs"
    using Cons by simp
  show ?case
  proof (cases "P x")
    case True
    have "filter P (insertTotal d x (sortTotal d xs)) = x # filter P (sortTotal d xs)"
      using True Cons.prems by (intro filter_insertTotal_in) (simp_all add: set_sortTotal)
    then show ?thesis
      using True ih by simp
  next
    case False
    then show ?thesis
      using ih by (simp add: filter_insertTotal_out)
  qed
qed

subsection \<open>Sortedness and uniqueness of the sorted arrangement\<close>

lemma sorted_insertTotal:
  assumes "sorted_wrt (\<lambda>a b. d a b \<le> 0) ys" and "x \<in> A" and "set ys \<subseteq> A"
    and tot: "\<And>a b. a \<in> A \<Longrightarrow> b \<in> A \<Longrightarrow> d a b \<le> 0 \<or> d b a \<le> 0"
    and trans: "\<And>a b c. a \<in> A \<Longrightarrow> b \<in> A \<Longrightarrow> c \<in> A \<Longrightarrow>
                  d a b \<le> 0 \<Longrightarrow> d b c \<le> 0 \<Longrightarrow> d a c \<le> 0"
  shows "sorted_wrt (\<lambda>a b. d a b \<le> 0) (insertTotal d x ys)"
  using assms(1,3)
proof (induction ys)
  case Nil
  then show ?case by simp
next
  case (Cons y ys)
  have srt: "sorted_wrt (\<lambda>a b. d a b \<le> 0) ys" and hd: "\<forall>z\<in>set ys. d y z \<le> 0"
    using Cons.prems(1) by simp_all
  have yA: "y \<in> A" and ysA: "set ys \<subseteq> A"
    using Cons.prems(2) by simp_all
  show ?case
  proof (cases "d x y \<le> 0")
    case True
    have "d x z \<le> 0" if "z \<in> set ys" for z
    proof (rule trans [of x y z])
      show "z \<in> A" using that ysA by blast
      show "d y z \<le> 0" using that hd by blast
    qed (use assms(2) yA True in simp_all)
    then show ?thesis
      using True hd srt by simp
  next
    case False
    have yx: "d y x \<le> 0"
      using tot [of x y] assms(2) yA False by blast
    have "sorted_wrt (\<lambda>a b. d a b \<le> 0) (insertTotal d x ys)"
      using srt ysA by (rule Cons.IH)
    moreover have "\<forall>z\<in>set (insertTotal d x ys). d y z \<le> 0"
      using yx hd by (simp add: set_insertTotal)
    ultimately show ?thesis
      using False by simp
  qed
qed

lemma sorted_sortTotal:
  assumes "set xs \<subseteq> A"
    and tot: "\<And>a b. a \<in> A \<Longrightarrow> b \<in> A \<Longrightarrow> d a b \<le> 0 \<or> d b a \<le> 0"
    and trans: "\<And>a b c. a \<in> A \<Longrightarrow> b \<in> A \<Longrightarrow> c \<in> A \<Longrightarrow>
                  d a b \<le> 0 \<Longrightarrow> d b c \<le> 0 \<Longrightarrow> d a c \<le> 0"
  shows "sorted_wrt (\<lambda>a b. d a b \<le> 0) (sortTotal d xs)"
  using assms(1)
proof (induction xs)
  case Nil
  then show ?case by simp
next
  case (Cons x xs)
  have ih: "sorted_wrt (\<lambda>a b. d a b \<le> 0) (sortTotal d xs)"
    using Cons by simp
  have "sorted_wrt (\<lambda>a b. d a b \<le> 0) (insertTotal d x (sortTotal d xs))"
  proof (rule sorted_insertTotal [where A = A])
    show "x \<in> A" using Cons.prems by simp
    show "set (sortTotal d xs) \<subseteq> A" using Cons.prems by (simp add: set_sortTotal)
  qed (fact ih, fact tot, fact trans)
  then show ?case by simp
qed

lemma sorted_wrt_unique:
  assumes "sorted_wrt R xs" and "sorted_wrt R ys"
    and "distinct xs" and "distinct ys" and "set xs = set ys" and "set xs \<subseteq> A"
    and anti: "\<And>a b. a \<in> A \<Longrightarrow> b \<in> A \<Longrightarrow> R a b \<Longrightarrow> R b a \<Longrightarrow> a = b"
  shows "xs = ys"
  using assms(1-6)
proof (induction xs arbitrary: ys)
  case Nil
  then show ?case by simp
next
  case (Cons x xs)
  then obtain y ys' where ys: "ys = y # ys'"
    by (cases ys) auto
  have xA: "x \<in> A"
    using Cons.prems(6) by simp
  have "y \<in> set ys"
    using ys by simp
  then have yA: "y \<in> A"
    using Cons.prems(5,6) by blast
  have "x = y"
  proof (rule ccontr)
    assume ne: "x \<noteq> y"
    then have "x \<in> set ys'" and "y \<in> set xs"
      using Cons.prems(5) ys by auto
    then have "R y x" and "R x y"
      using Cons.prems(1,2) ys by auto
    then show False
      using ne anti [OF xA yA] by blast
  qed
  have sets: "set xs = set ys'"
    using Cons.prems(3,4,5) ys \<open>x = y\<close> by auto
  have "xs = ys'"
  proof (rule Cons.IH)
    show "sorted_wrt R xs" using Cons.prems(1) by simp
    show "sorted_wrt R ys'" using Cons.prems(2) ys by simp
    show "distinct xs" using Cons.prems(3) by simp
    show "distinct ys'" using Cons.prems(4) ys by simp
    show "set xs \<subseteq> A" using Cons.prems(6) by simp
  qed (rule sets)
  then show ?case
    using ys \<open>x = y\<close> by simp
qed

subsection \<open>Descending is ascending reversed, when nothing ties\<close>

lemma rev_sortTotal:
  assumes c: "consistentOn (set xs) d" and nt: "noTies d xs"
  shows "sortTotal (\<lambda>a b. - d a b) xs = rev (sortTotal d xs)"
proof -
  let ?A = "set xs"
  have flip: "(d a b < 0) = (0 < d b a)" if "a \<in> ?A" "b \<in> ?A" for a b
    using c that by (simp add: consistentOn_def)
  have trans: "d a e \<le> 0" if "a \<in> ?A" "b \<in> ?A" "e \<in> ?A" "d a b \<le> 0" "d b e \<le> 0" for a b e
    using c that unfolding consistentOn_def by blast
  have ge: "(0 \<le> d a b) = (d b a \<le> 0)" if "a \<in> ?A" "b \<in> ?A" for a b
    using flip [OF that] by linarith
  have tie: "a = b" if "a \<in> ?A" "b \<in> ?A" "d a b = 0" for a b
    using nt that unfolding noTies_def by blast
  have asc: "sorted_wrt (\<lambda>a b. d a b \<le> 0) (sortTotal d xs)"
  proof (rule sorted_sortTotal [where A = ?A])
    show "d a b \<le> 0 \<or> d b a \<le> 0" if "a \<in> ?A" "b \<in> ?A" for a b
      using ge [OF that] by linarith
  qed (simp, use trans in blast)
  have desc: "sorted_wrt (\<lambda>a b. - d a b \<le> 0) (sortTotal (\<lambda>a b. - d a b) xs)"
  proof (rule sorted_sortTotal [where A = ?A])
    show "- d a b \<le> 0 \<or> - d b a \<le> 0" if "a \<in> ?A" "b \<in> ?A" for a b
      using ge [OF that] by linarith
    show "- d a e \<le> 0"
      if "a \<in> ?A" "b \<in> ?A" "e \<in> ?A" "- d a b \<le> 0" "- d b e \<le> 0" for a b e
    proof -
      have "d b a \<le> 0" and "d e b \<le> 0"
        using that ge [of a b] ge [of b e] by simp_all
      then have "d e a \<le> 0"
        using trans [of e b a] that by simp
      then show ?thesis
        using ge [of a e] that by simp
    qed
  qed simp
  have "sorted_wrt (\<lambda>a b. d b a \<le> 0) (rev (sortTotal d xs))"
    using asc by (simp add: sorted_wrt_rev)
  then have revd: "sorted_wrt (\<lambda>a b. - d a b \<le> 0) (rev (sortTotal d xs))"
  proof (rule sorted_wrt_mono_rel [rotated])
    show "- d a b \<le> 0"
      if "a \<in> set (rev (sortTotal d xs))" "b \<in> set (rev (sortTotal d xs))" "d b a \<le> 0" for a b
      using that ge [of a b] by (simp add: set_sortTotal)
  qed
  show ?thesis
  proof (rule sorted_wrt_unique [where R = "\<lambda>a b. - d a b \<le> 0" and A = ?A])
    show "a = b" if "a \<in> ?A" "b \<in> ?A" "- d a b \<le> 0" "- d b a \<le> 0" for a b
    proof -
      have "d a b \<le> 0"
        using that ge [of b a] by simp
      then have "d a b = 0"
        using that by simp
      then show ?thesis
        using tie that by blast
    qed
    show "distinct (sortTotal (\<lambda>a b. - d a b) xs)" and "distinct (rev (sortTotal d xs))"
      using nt by (simp_all add: distinct_sortTotal noTies_def)
  qed (use desc revd in \<open>simp_all add: set_sortTotal\<close>)
qed

subsection \<open>The comparator of the sorted endpoint\<close>

lemma comparison_simps:
  "comparison lc ''id'' a b = product_id a - product_id b"
  "comparison lc ''name'' a b = lc (product_name a) (product_name b)"
  "comparison lc ''price'' a b = price a - price b"
  "comparison lc ''stock'' a b = stock a - stock b"
  by (simp_all add: comparison_def compareProducts_def getProp_def)

lemma compareProducts_supported:
  assumes "sortBy \<in> {''id'', ''name'', ''price'', ''stock''}"
  shows "compareProducts lc sortBy order a b =
           Inr (if order = ''desc'' then - comparison lc sortBy a b else comparison lc sortBy a b)"
proof -
  have "compareProducts lc sortBy order a b =
      Inr (if order = ''desc'' then - comparison lc sortBy a b else comparison lc sortBy a b)"
    if "sortBy = k" and "k \<in> {''id'', ''name'', ''price'', ''stock''}" for k
    using that by (auto simp: comparison_def compareProducts_def getProp_def)
  then show ?thesis
    using assms by blast
qed

lemma consistentOn_difference: "consistentOn A (\<lambda>a b. f a - f b :: int)"
  by (simp add: consistentOn_def)

lemma consistentOn_image:
  "consistentOn (f ` A) c \<Longrightarrow> consistentOn A (\<lambda>a b. c (f a) (f b))"
  unfolding consistentOn_def by blast

lemma consistent_comparison:
  assumes "sortBy \<in> {''id'', ''name'', ''price'', ''stock''}"
    and "sortBy = ''name'' \<Longrightarrow> consistentOn (product_name ` set ps) lc"
  shows "consistentOn (set ps) (comparison lc sortBy)"
proof -
  consider "sortBy = ''id''" | "sortBy = ''name''" | "sortBy = ''price''" | "sortBy = ''stock''"
    using assms(1) by blast
  then show ?thesis
  proof cases
    case 1
    have "comparison lc sortBy = (\<lambda>a b. product_id a - product_id b)"
      using 1 by (intro ext) (simp add: comparison_simps)
    then show ?thesis by (simp only: consistentOn_difference)
  next
    case 2
    have "comparison lc sortBy = (\<lambda>a b. lc (product_name a) (product_name b))"
      using 2 by (intro ext) (simp add: comparison_simps)
    then show ?thesis
      using assms(2) [OF 2] by (simp only: consistentOn_image)
  next
    case 3
    have "comparison lc sortBy = (\<lambda>a b. price a - price b)"
      using 3 by (intro ext) (simp add: comparison_simps)
    then show ?thesis by (simp only: consistentOn_difference)
  next
    case 4
    have "comparison lc sortBy = (\<lambda>a b. stock a - stock b)"
      using 4 by (intro ext) (simp add: comparison_simps)
    then show ?thesis by (simp only: consistentOn_difference)
  qed
qed

lemma equal_keys_tie:
  assumes "consistentOn (set ps) (comparison lc sortBy)"
    and "sortBy \<in> {''id'', ''name'', ''price'', ''stock''}"
    and "a \<in> set ps" and "b \<in> set ps" and "getProp a sortBy = getProp b sortBy"
  shows "comparison lc sortBy a b = 0"
proof -
  have "comparison lc sortBy a b = comparison lc sortBy a a"
    using assms(2,5) by (auto simp: comparison_simps getProp_def)
  then show ?thesis
    using assms(1,3) by (simp add: consistentOn_def)
qed

lemma sortProducts_supported:
  assumes "sortBy \<in> {''id'', ''name'', ''price'', ''stock''}"
  shows "fst (sortProducts lc sortBy order s) =
           Inr (sortTotal (\<lambda>a b. if order = ''desc'' then - comparison lc sortBy a b
                                  else comparison lc sortBy a b) (products s))"
proof -
  have "arraySort (compareProducts lc sortBy order) (products s) =
      Inr (sortTotal (\<lambda>a b. if order = ''desc'' then - comparison lc sortBy a b
                             else comparison lc sortBy a b) (products s))"
    by (rule arraySort_total) (rule compareProducts_supported [OF assms])
  then show ?thesis
    by (simp add: sortProducts_result)
qed

lemma consistentOn_neg:
  assumes "consistentOn A d"
  shows "consistentOn A (\<lambda>a b. - d a b)"
proof -
  have refl: "d a a = 0" if "a \<in> A" for a
    using assms that by (simp add: consistentOn_def)
  have flip: "(d a b < 0) = (0 < d b a)" if "a \<in> A" "b \<in> A" for a b
    using assms that by (simp add: consistentOn_def)
  have trans: "d a e \<le> 0" if "a \<in> A" "b \<in> A" "e \<in> A" "d a b \<le> 0" "d b e \<le> 0" for a b e
    using assms that unfolding consistentOn_def by blast
  have ge: "(0 \<le> d a b) = (d b a \<le> 0)" if "a \<in> A" "b \<in> A" for a b
    using flip [OF that] by linarith
  have neg_trans: "- d a e \<le> 0"
    if "a \<in> A" "b \<in> A" "e \<in> A" "- d a b \<le> 0" "- d b e \<le> 0" for a b e
  proof -
    have "d b a \<le> 0" and "d e b \<le> 0"
      using that ge [of a b] ge [of b e] by simp_all
    then have "d e a \<le> 0"
      using trans [of e b a] that by simp
    then show ?thesis
      using ge [of a e] that by simp
  qed
  show ?thesis
    unfolding consistentOn_def
  proof (intro conjI ballI impI)
    show "- d a a = 0" if "a \<in> A" for a
      using refl [OF that] by simp
    show "(- d a b < 0) = (0 < - d b a)" if "a \<in> A" "b \<in> A" for a b
      using flip [of b a] that by simp
    show "- d a e \<le> 0"
      if "a \<in> A" "b \<in> A" "e \<in> A" "- d a b \<le> 0" "- d b e \<le> 0" for a b e
      using that by (rule neg_trans)
  qed
qed

lemma sorted_sortTotal_consistent:
  assumes "consistentOn (set xs) d"
  shows "sorted_wrt (\<lambda>a b. d a b \<le> 0) (sortTotal d xs)"
proof (rule sorted_sortTotal [where A = "set xs"])
  show "d a b \<le> 0 \<or> d b a \<le> 0" if "a \<in> set xs" "b \<in> set xs" for a b
  proof -
    have "(d a b < 0) = (0 < d b a)"
      using assms that by (simp add: consistentOn_def)
    then show ?thesis by linarith
  qed
  show "d a e \<le> 0"
    if "a \<in> set xs" "b \<in> set xs" "e \<in> set xs" "d a b \<le> 0" "d b e \<le> 0" for a b e
    using assms that unfolding consistentOn_def by blast
qed simp

text \<open>
  Claim C8.  For every \<open>sortBy\<close> among \<open>id\<close>, \<open>name\<close>, \<open>price\<close> and \<open>stock\<close> and every
  order (with a consistent \<open>localeCompare\<close> on the names of the collection when sorting
  by name), the sort succeeds and is stable: its result is a permutation of the products,
  ordered by the comparison (reversed for \<open>desc\<close>), in which the products with equal
  keys keep their original relative order.  Sorting the
  collection again with the same parameters, in the store the first sort left, gives the
  same output.  And when no two products tie, sorting descending gives the reverse of
  sorting ascending.
\<close>

theorem sort_stable:
  assumes "sortBy \<in> {''id'', ''name'', ''price'', ''stock''}"
    and "sortBy = ''name'' \<Longrightarrow> consistentOn (product_name ` set (products s)) lc"
  shows "\<not> isl (fst (sortProducts lc sortBy order s)) \<and>
         mset (projr (fst (sortProducts lc sortBy order s))) = mset (products s) \<and>
         sorted_wrt (\<lambda>a b. if order = ''desc'' then 0 \<le> comparison lc sortBy a b
                           else comparison lc sortBy a b \<le> 0)
           (projr (fst (sortProducts lc sortBy order s))) \<and>
         (\<forall>v. filter (\<lambda>p. getProp p sortBy = v) (projr (fst (sortProducts lc sortBy order s))) =
              filter (\<lambda>p. getProp p sortBy = v) (products s)) \<and>
         fst (sortProducts lc sortBy order (snd (sortProducts lc sortBy order s))) =
           fst (sortProducts lc sortBy order s) \<and>
         (noTies (comparison lc sortBy) (products s) \<longrightarrow>
            projr (fst (sortProducts lc sortBy ''desc'' s)) =
              rev (projr (fst (sortProducts lc sortBy ''asc'' s))))"
proof -
  let ?d = "\<lambda>a b. if order = ''desc'' then - comparison lc sortBy a b else comparison lc sortBy a b"
  note r = sortProducts_supported [OF assms(1)]
  have c: "consistentOn (set (products s)) (comparison lc sortBy)"
    using assms by (rule consistent_comparison)
  have ok: "\<not> isl (fst (sortProducts lc sortBy order s))"
    by (simp add: r)
  have perm: "mset (projr (fst (sortProducts lc sortBy order s))) = mset (products s)"
    by (simp add: r mset_sortTotal)
  have srt: "sorted_wrt (\<lambda>a b. if order = ''desc'' then 0 \<le> comparison lc sortBy a b
                           else comparison lc sortBy a b \<le> 0)
           (projr (fst (sortProducts lc sortBy order s)))"
  proof (cases "order = ''desc''")
    case True
    have "sorted_wrt (\<lambda>a b. - comparison lc sortBy a b \<le> 0)
        (sortTotal (\<lambda>a b. - comparison lc sortBy a b) (products s))"
      using consistentOn_neg [OF c] by (rule sorted_sortTotal_consistent)
    then show ?thesis
      using True by (simp add: r)
  next
    case False
    have "sorted_wrt (\<lambda>a b. comparison lc sortBy a b \<le> 0)
        (sortTotal (comparison lc sortBy) (products s))"
      using c by (rule sorted_sortTotal_consistent)
    then show ?thesis
      using False by (simp add: r)
  qed
  have stable: "filter (\<lambda>p. getProp p sortBy = v) (projr (fst (sortProducts lc sortBy order s))) =
      filter (\<lambda>p. getProp p sortBy = v) (products s)" for v
  proof -
    have "filter (\<lambda>p. getProp p sortBy = v) (sortTotal ?d (products s)) =
        filter (\<lambda>p. getProp p sortBy = v) (products s)"
    proof (rule filter_sortTotal)
      fix x y
      assume "x \<in> set (products s)" "y \<in> set (products s)"
        and "getProp x sortBy = v" "getProp y sortBy = v"
      then have "comparison lc sortBy x y = 0"
        using equal_keys_tie [OF c assms(1)] by simp
      then show "?d x y \<le> 0"
        by simp
    qed
    then show ?thesis
      by (simp add: r)
  qed
  have again: "fst (sortProducts lc sortBy order (snd (sortProducts lc sortBy order s))) =
      fst (sortProducts lc sortBy order s)"
    using sortProducts_frame [of lc sortBy order s] by (intro sortProducts_reads_products) simp
  have rv: "projr (fst (sortProducts lc sortBy ''desc'' s)) =
      rev (projr (fst (sortProducts lc sortBy ''asc'' s)))"
    if "noTies (comparison lc sortBy) (products s)"
    using rev_sortTotal [OF c that] by (simp add: sortProducts_supported [OF assms(1)])
  show ?thesis
    using ok perm srt stable again rv by blast
qed

lemma smallStore_sorted_by_price:
  "map product_id (projr (fst (sortProducts lastCharCompare ''price'' ''asc'' smallStore))) = [2, 1, 3]"
  "map product_id (projr (fst (sortProducts lastCharCompare ''price'' ''desc'' smallStore))) = [1, 3, 2]"
  by (simp_all add: sortProducts_supported comparison_simps smallStore_def)

lemma smallStore_sorted_by_name:
  "map product_id (projr (fst (sortProducts lastCharCompare ''name'' ''asc'' smallStore))) = [1, 2, 3]"
  "map product_id (projr (fst (sortProducts lastCharCompare ''name'' ''desc'' smallStore))) = [3, 2, 1]"
  by (simp_all add: sortProducts_supported comparison_simps smallStore_def lastCharCompare_def)

lemma smallStore_names_consistent:
  "consistentOn (product_name ` set (products smallStore)) lastCharCompare"
  by (simp add: consistentOn_def smallStore_def lastCharCompare_def)

lemma smallStore_names_noTies:
  "noTies (comparison lastCharCompare ''name'') (products smallStore)"
  by (simp add: noTies_def comparison_simps smallStore_def lastCharCompare_def)

theorem sort_stable_witness:
  "''name'' \<in> {''id'', ''name'', ''price'', ''stock''} \<and>
   consistentOn (product_name ` set (products smallStore)) lastCharCompare \<and>
   noTies (comparison lastCharCompare ''name'') (products smallStore) \<and>
   map product_id (projr (fst (sortProducts lastCharCompare ''name'' ''asc'' smallStore))) = [1, 2, 3] \<and>
   map product_id (projr (fst (sortProducts lastCharCompare ''name'' ''desc'' smallStore))) = [3, 2, 1] \<and>
   map price (products smallStore) = [250, 40, 250] \<and>
   map product_id (projr (fst (sortProducts lastCharCompare ''price'' ''asc'' smallStore))) = [2, 1, 3] \<and>
   map product_id (projr (fst (sortProducts lastCharCompare ''price'' ''desc'' smallStore))) = [1, 3, 2]"
  using sort_stable [of "''name''" smallStore lastCharCompare "''asc''"]
    sort_stable [of "''price''" smallStore lastCharCompare "''desc''"]
    smallStore_names_consistent smallStore_names_noTies
    smallStore_sorted_by_price smallStore_sorted_by_name
  by (simp add: smallStore_def)

end
